theory Spec2Isabelle
  imports Main "HOL-Library.AList"
begin

section \<open>Data model of cogs/twitter.py\<close>

text \<open>
  The cog keeps \<^verbatim>\<open>self.conf.follows\<close>, a dict from the Twitter user id to an element with a
  \<^verbatim>\<open>screen_name\<close> and a dict \<^verbatim>\<open>channels\<close> from the Discord channel id to an element with
  \<^verbatim>\<open>last_tweet_id\<close>. Python dicts keep insertion order and the code iterates over them, so
  both dicts are association lists: \<open>AList.update\<close> is \<^verbatim>\<open>d[k] = v\<close> (in place, or appended),
  \<open>AList.delete\<close> is \<^verbatim>\<open>del d[k]\<close>, \<open>AList.map_entry\<close> is a write to a field of \<^verbatim>\<open>d[k]\<close>.
\<close>

type_synonym channels = "(int \<times> int) list"

record follow_conf =
  screen_name :: string
  channels :: channels

type_synonym registry = "(int \<times> follow_conf) list"

text \<open>A tweet as the code reads it: \<^verbatim>\<open>tweet['id']\<close>, \<^verbatim>\<open>tweet['user']['id']\<close>,
  \<^verbatim>\<open>tweet['user']['screen_name']\<close>.\<close>

record tweet =
  tweet_id :: int
  tweet_user_id :: int
  tweet_user_screen_name :: string

text \<open>The answer of \<^verbatim>\<open>users.show\<close>: \<open>status\<close> is \<^verbatim>\<open>user['status']['id']\<close>, absent when the
  account has never published.\<close>

record twitter_user =
  user_id :: int
  protected :: bool
  status :: "int option"

text \<open>The keyword arguments of the \<^verbatim>\<open>user_timeline\<close> request built by \<^verbatim>\<open>get_timeline\<close>.\<close>

record params =
  exclude_replies :: bool
  include_rts :: bool
  param_user_id :: "int option"
  param_screen_name :: "string option"
  since_id :: "int option"
  count :: "int option"

text \<open>
  The collaborators of the cog: the Twitter client and the Discord channels. \<open>users_show\<close>
  answers \<open>None\<close> where peony raises \<^verbatim>\<open>NotFound\<close>; \<open>user_timeline\<close> is the list collected from
  the request's iterator; \<open>can_send c\<close> tells whether \<^verbatim>\<open>send\<close> on channel \<open>c\<close> returns (it
  raises otherwise).
\<close>

record env =
  users_show :: "string \<Rightarrow> twitter_user option"
  user_timeline :: "params \<Rightarrow> tweet list"
  can_send :: "int \<Rightarrow> bool"

datatype error =
    TwitterError string
  | KeyError
  | ValueError
  | DeliveryFailed int

text \<open>
  The state of the cog and of its surroundings: the registry in memory, the registry last
  written by \<^verbatim>\<open>self.conf.save()\<close>, the handle \<^verbatim>\<open>self.stream_task\<close> (tasks are numbered in the
  order of their creation), the tasks on which \<^verbatim>\<open>cancel()\<close> was called, the tasks whose
  coroutine has ended and left its subscription, the messages sent to channels (oldest
  first) and the reactions added. A task ends in the event loop, which runs only while a
  coroutine awaits: \<^verbatim>\<open>stream_start\<close>, \<^verbatim>\<open>stream_stop\<close> and \<^verbatim>\<open>stream_restart\<close> are plain functions
  without an \<^verbatim>\<open>await\<close>, and no code of the cog awaits the task, so no function below writes
  \<open>released\<close>.
\<close>

record state =
  follows :: registry
  saved :: registry
  stream_task :: "nat option"
  tasks_created :: nat
  cancelled :: "nat list"
  released :: "nat list"
  sent :: "(int \<times> string) list"
  reactions :: "string list"

section \<open>Helpers\<close>

text \<open>Python's \<^verbatim>\<open>str(n)\<close> for an integer, as the f-string of \<^verbatim>\<open>build_tweet_url\<close> formats it.\<close>

definition digit :: "nat \<Rightarrow> char" where
  "digit d = char_of (48 + d)"

function str_nat :: "nat \<Rightarrow> string" where
  "str_nat n = (if n < 10 then [digit n] else str_nat (n div 10) @ [digit (n mod 10)])"
  by pat_completeness auto
termination
  by (relation "measure (\<lambda>n. n)") auto

declare str_nat.simps [simp del]

definition str_int :: "int \<Rightarrow> string" where
  "str_int i = (if i < 0 then CHR ''-'' # str_nat (nat (- i)) else str_nat (nat i))"

definition build_tweet_url :: "string \<Rightarrow> int \<Rightarrow> string" where
  "build_tweet_url name tid = ''https://twitter.com/'' @ name @ ''/status/'' @ str_int tid"

text \<open>\<^verbatim>\<open>handle.lower().lstrip('@')\<close>, on ASCII handles.\<close>

definition lower_char :: "char \<Rightarrow> char" where
  "lower_char c =
     (if (65::nat) \<le> of_char c \<and> of_char c \<le> (90::nat) then char_of (of_char c + (32::nat)) else c)"

definition normalise_handle :: "string \<Rightarrow> string" where
  "normalise_handle handle = dropWhile (\<lambda>c. c = CHR ''@'') (map lower_char handle)"

text \<open>Python's \<^verbatim>\<open>min\<close> and \<^verbatim>\<open>max\<close> of a sequence: \<^verbatim>\<open>ValueError\<close> on the empty one.\<close>

definition py_min :: "int list \<Rightarrow> error + int" where
  "py_min xs = (case xs of [] \<Rightarrow> Inl ValueError | x # ys \<Rightarrow> Inr (fold min ys x))"

definition py_max :: "int list \<Rightarrow> error + int" where
  "py_max xs = (case xs of [] \<Rightarrow> Inl ValueError | x # ys \<Rightarrow> Inr (fold max ys x))"

text \<open>
  Modelled from the spec: \<^verbatim>\<open>utils/config.py\<close> is not among the sources. The call
  \<^verbatim>\<open>config.get(self.conf.follows, screen_name=screen_name)\<close> looks a source up by its handle
  and gives its id and element, or \<^verbatim>\<open>(None, None)\<close>.
\<close>

definition config_get :: "registry \<Rightarrow> string \<Rightarrow> (int \<times> follow_conf) option" where
  "config_get reg name = find (\<lambda>(uid, conf). screen_name conf = name) reg"

definition save :: "state \<Rightarrow> state" where
  "save s = s\<lparr>saved := follows s\<rparr>"

section \<open>The stream task\<close>

definition stream_start :: "state \<Rightarrow> state" where
  "stream_start s =
     (if length (follows s) > 0 \<and> stream_task s = None
      then s\<lparr>stream_task := Some (tasks_created s), tasks_created := Suc (tasks_created s)\<rparr>
      else s)"

definition stream_stop :: "state \<Rightarrow> state" where
  "stream_stop s =
     (case stream_task s of
        None \<Rightarrow> s
      | Some t \<Rightarrow> s\<lparr>cancelled := cancelled s @ [t], stream_task := None\<rparr>)"

definition stream_restart :: "state \<Rightarrow> state" where
  "stream_restart s = stream_start (stream_stop s)"

section \<open>Dispatch\<close>

text \<open>The write \<^verbatim>\<open>conf.channels[channel_id].last_tweet_id = tweet['id']\<close> on the element of
  source \<open>uid\<close>.\<close>

definition set_last_tweet_id :: "int \<Rightarrow> int \<Rightarrow> int \<Rightarrow> registry \<Rightarrow> registry" where
  "set_last_tweet_id uid c tid reg =
     AList.map_entry uid (\<lambda>conf. conf\<lparr>channels := AList.map_entry c (\<lambda>_. tid) (channels conf)\<rparr>) reg"

text \<open>The loop of \<^verbatim>\<open>dispatch_tweet\<close> over the channel ids of the source: send, write the
  cursor, save. A send that raises ends the loop and the call, with the state as it is.\<close>

fun dispatch_loop :: "env \<Rightarrow> int \<Rightarrow> string \<Rightarrow> int \<Rightarrow> int list \<Rightarrow> state \<Rightarrow> error option \<times> state" where
  "dispatch_loop e uid url tid [] s = (None, s)"
| "dispatch_loop e uid url tid (c # cs) s =
     (if can_send e c
      then dispatch_loop e uid url tid cs
             (save (s\<lparr>sent := sent s @ [(c, url)],
                      follows := set_last_tweet_id uid c tid (follows s)\<rparr>))
      else (Some (DeliveryFailed c), s))"

definition dispatch_tweet :: "env \<Rightarrow> tweet \<Rightarrow> state \<Rightarrow> error option \<times> state" where
  "dispatch_tweet e tw s =
     (let tweet_url = build_tweet_url (tweet_user_screen_name tw) (tweet_id tw) in
      case map_of (follows s) (tweet_user_id tw) of
        None \<Rightarrow> (None, s)
      | Some conf \<Rightarrow>
          dispatch_loop e (tweet_user_id tw) tweet_url (tweet_id tw) (map fst (channels conf)) s)"

section \<open>Timelines and reconciliation\<close>

definition timeline_request :: "env \<Rightarrow> params \<Rightarrow> int \<Rightarrow> int \<Rightarrow> tweet list" where
  "timeline_request e ps since limit =
     user_timeline e (if since > 0 then ps\<lparr>since_id := Some since\<rparr> else ps\<lparr>count := Some limit\<rparr>)"

definition base_params :: params where
  "base_params = \<lparr>exclude_replies = True, include_rts = True, param_user_id = None,
                  param_screen_name = None, since_id = None, count = None\<rparr>"

text \<open>\<^verbatim>\<open>if user_id:\<close> is false for \<^verbatim>\<open>None\<close> and for \<open>0\<close>.\<close>

definition get_timeline :: "env \<Rightarrow> int option \<Rightarrow> string option \<Rightarrow> int \<Rightarrow> state \<Rightarrow> error + tweet list" where
  "get_timeline e uid name limit s =
     (if uid \<noteq> None \<and> uid \<noteq> Some 0
      then (case map_of (follows s) (the uid) of
              None \<Rightarrow> Inl KeyError
            | Some conf \<Rightarrow>
                (case py_min (map snd (channels conf)) of
                   Inl err \<Rightarrow> Inl err
                 | Inr since \<Rightarrow>
                     Inr (timeline_request e (base_params\<lparr>param_user_id := uid\<rparr>) since limit)))
      else Inr (timeline_request e (base_params\<lparr>param_screen_name := name\<rparr>) 0 limit))"

text \<open>The inner loop of \<^verbatim>\<open>update_feeds\<close>: the tweets of one timeline, already reversed.\<close>

fun dispatch_all :: "env \<Rightarrow> tweet list \<Rightarrow> state \<Rightarrow> error option \<times> state" where
  "dispatch_all e [] s = (None, s)"
| "dispatch_all e (tw # tws) s =
     (case dispatch_tweet e tw s of
        (Some err, s') \<Rightarrow> (Some err, s')
      | (None, s') \<Rightarrow> dispatch_all e tws s')"

text \<open>\<^verbatim>\<open>update_feeds\<close> over the ids of \<^verbatim>\<open>self.conf.follows\<close>: \<^verbatim>\<open>get_timelines\<close> fetches the
  timeline of a source when the loop reaches it, with the default limit 3.\<close>

fun update_loop :: "env \<Rightarrow> int list \<Rightarrow> state \<Rightarrow> error option \<times> state" where
  "update_loop e [] s = (None, s)"
| "update_loop e (uid # uids) s =
     (case get_timeline e (Some uid) None 3 s of
        Inl err \<Rightarrow> (Some err, s)
      | Inr timeline \<Rightarrow>
          (case dispatch_all e (rev timeline) s of
             (Some err, s') \<Rightarrow> (Some err, s')
           | (None, s') \<Rightarrow> update_loop e uids s'))"

definition update_feeds :: "env \<Rightarrow> state \<Rightarrow> error option \<times> state" where
  "update_feeds e s = update_loop e (map fst (follows s)) s"

section \<open>Removing channels\<close>

text \<open>
  \<^verbatim>\<open>remove_channels_from_conf(*channels)\<close> receives Python objects and intersects their set with
  the channel ids of each source. Its two callers pass a channel object
  (\<^verbatim>\<open>on_guild_channel_delete\<close>) and one generator of ids (\<^verbatim>\<open>on_guild_remove\<close>); a key of
  \<^verbatim>\<open>conf.channels\<close> is an id. A channel object or a generator is never equal to an integer,
  so only \<open>Id\<close> arguments can meet a key.
\<close>

datatype pyobj = Id int | TextChannel int | Generator "int list"

text \<open>\<^verbatim>\<open>channels & set(conf.channels)\<close>, as the keys of the source that the arguments hold.\<close>

definition hits :: "pyobj list \<Rightarrow> channels \<Rightarrow> int list" where
  "hits cs chans = remdups (filter (\<lambda>k. Id k \<in> set cs) (map fst chans))"

text \<open>
  The loop over \<^verbatim>\<open>self.conf.follows.copy().items()\<close>: the copy is shallow, so each \<open>conf\<close> of
  the snapshot is the element of the registry itself. Every hit is popped and counted, and
  a source left without channels is deleted from the registry.
\<close>

fun remove_loop :: "pyobj list \<Rightarrow> registry \<Rightarrow> nat \<times> nat \<times> registry \<Rightarrow> nat \<times> nat \<times> registry" where
  "remove_loop cs [] acc = acc"
| "remove_loop cs ((uid, conf) # rest) (removed, unfollowed, reg) =
     (let hit = hits cs (channels conf);
          chans' = fold AList.delete hit (channels conf);
          reg' = AList.map_entry uid (\<lambda>cf. cf\<lparr>channels := chans'\<rparr>) reg
      in if length chans' = 0
         then remove_loop cs rest (removed + length hit, unfollowed + 1, AList.delete uid reg')
         else remove_loop cs rest (removed + length hit, unfollowed, reg'))"

definition remove_channels_from_conf :: "pyobj list \<Rightarrow> state \<Rightarrow> (nat \<times> nat) \<times> state" where
  "remove_channels_from_conf cs s =
     (case remove_loop cs (follows s) (0, 0, follows s) of
        (removed, unfollowed, reg) \<Rightarrow>
          (let s1 = save (s\<lparr>follows := reg\<rparr>)
           in ((removed, unfollowed), if unfollowed > 0 then stream_restart s1 else s1)))"

text \<open>The listeners: the deleted channel has id \<open>cid\<close>; the guild left has the text
  channels \<open>cids\<close>.\<close>

definition on_guild_channel_delete :: "int \<Rightarrow> state \<Rightarrow> (nat \<times> nat) \<times> state" where
  "on_guild_channel_delete cid s = remove_channels_from_conf [TextChannel cid] s"

definition on_guild_remove :: "int list \<Rightarrow> state \<Rightarrow> (nat \<times> nat) \<times> state" where
  "on_guild_remove cids s = remove_channels_from_conf [Generator cids] s"

section \<open>The commands follow and unfollow\<close>

text \<open>The end of \<^verbatim>\<open>follow\<close>, common to both branches: the new channel is written into the
  element of source \<open>uid\<close>, the registry is saved, the stream restarted, the url sent to the
  channel of the command and the reaction added.\<close>

definition follow_finish :: "env \<Rightarrow> int \<Rightarrow> int \<Rightarrow> int \<Rightarrow> string \<Rightarrow> state \<Rightarrow> error option \<times> state" where
  "follow_finish e channel uid last_id url s =
     (let s1 = save (s\<lparr>follows :=
                  AList.map_entry uid
                    (\<lambda>conf. conf\<lparr>channels := AList.update channel last_id (channels conf)\<rparr>) (follows s)\<rparr>);
          s2 = stream_restart s1
      in if can_send e channel
         then (None, s2\<lparr>sent := sent s2 @ [(channel, url)],
                        reactions := reactions s2 @ [''WHITE HEAVY CHECK MARK'']\<rparr>)
         else (Some (DeliveryFailed channel), s2))"

definition follow :: "env \<Rightarrow> int \<Rightarrow> string \<Rightarrow> state \<Rightarrow> error option \<times> state" where
  "follow e channel handle s =
     (let name = normalise_handle handle in
      case config_get (follows s) name of
        Some (uid, conf) \<Rightarrow>
          if channel \<in> set (map fst (channels conf))
          then (Some (TwitterError (''Already following '' @ name @ '' in this channel.'')), s)
          else (case py_max (map snd (channels conf)) of
                  Inl err \<Rightarrow> (Some err, s)
                | Inr last_id \<Rightarrow> follow_finish e channel uid last_id (build_tweet_url name last_id) s)
      | None \<Rightarrow>
          (case users_show e name of
             None \<Rightarrow> (Some (TwitterError (''User '' @ name @ '' not found.'')), s)
           | Some user \<Rightarrow>
               if protected user
               then (Some (TwitterError ''This user is protected and cannot be followed.''), s)
               else
                 (let s1 = s\<lparr>follows :=
                             AList.update (user_id user) \<lparr>screen_name = name, channels = []\<rparr> (follows s)\<rparr>
                  in case status user of
                       None \<Rightarrow> (Some KeyError, s1)
                     | Some last_id \<Rightarrow>
                         follow_finish e channel (user_id user) last_id
                           (build_tweet_url name last_id) s1)))"

definition unfollow :: "int \<Rightarrow> string \<Rightarrow> state \<Rightarrow> error option \<times> state" where
  "unfollow channel handle s =
     (let name = normalise_handle handle in
      case config_get (follows s) name of
        None \<Rightarrow> (Some (TwitterError (''Not following '' @ name @ '' on this channel.'')), s)
      | Some (uid, conf) \<Rightarrow>
          if channel \<notin> set (map fst (channels conf))
          then (Some (TwitterError (''Not following '' @ name @ '' on this channel.'')), s)
          else
            (let chans' = AList.delete channel (channels conf);
                 s1 = s\<lparr>follows := AList.map_entry uid (\<lambda>cf. cf\<lparr>channels := chans'\<rparr>) (follows s)\<rparr>;
                 s2 = (if length chans' = 0
                       then stream_restart (s1\<lparr>follows := AList.delete uid (follows s1)\<rparr>)
                       else s1);
                 s3 = save s2
             in (None, s3\<lparr>reactions := reactions s3 @ [''WHITE HEAVY CHECK MARK'']\<rparr>)))"

section \<open>Observations on a state\<close>

text \<open>The cursor of channel \<open>c\<close> for source \<open>uid\<close>, the messages a channel has received, and
  the two properties of a registry that the code relies on: a dict has each key once, and
  no source is kept without channels.\<close>

definition cursor :: "registry \<Rightarrow> int \<Rightarrow> int \<Rightarrow> int option" where
  "cursor reg uid c = (case map_of reg uid of None \<Rightarrow> None | Some conf \<Rightarrow> map_of (channels conf) c)"

definition received :: "state \<Rightarrow> int \<Rightarrow> string list" where
  "received s c = map snd (filter (\<lambda>m. fst m = c) (sent s))"

definition no_empty_source :: "registry \<Rightarrow> bool" where
  "no_empty_source reg = list_all (\<lambda>p. channels (snd p) \<noteq> []) reg"

text \<open>The registry after the cursors of the channels \<open>ks\<close> of source \<open>uid\<close> were written
  with \<open>tid\<close>, one after the other.\<close>

definition advance :: "int \<Rightarrow> int \<Rightarrow> int list \<Rightarrow> registry \<Rightarrow> registry" where
  "advance uid tid ks reg = fold (\<lambda>c. set_last_tweet_id uid c tid) ks reg"

text \<open>
  The result of the bulk removal in the words of the specification: every destination entry
  whose id is among the arguments is gone from every source, and the sources left without
  destinations are deleted; the counts are the entries removed and the sources deleted.
\<close>

definition conf_without :: "pyobj list \<Rightarrow> follow_conf \<Rightarrow> follow_conf" where
  "conf_without cs conf = conf\<lparr>channels := filter (\<lambda>p. Id (fst p) \<notin> set cs) (channels conf)\<rparr>"

definition registry_without :: "pyobj list \<Rightarrow> registry \<Rightarrow> registry" where
  "registry_without cs reg = filter (\<lambda>p. channels (snd p) \<noteq> []) (map (\<lambda>p. (fst p, conf_without cs (snd p))) reg)"

definition entries_removed :: "pyobj list \<Rightarrow> registry \<Rightarrow> nat" where
  "entries_removed cs reg = sum_list (map (\<lambda>p. length (hits cs (channels (snd p)))) reg)"

definition sources_emptied :: "pyobj list \<Rightarrow> registry \<Rightarrow> nat" where
  "sources_emptied cs reg = length (filter (\<lambda>p. channels (conf_without cs (snd p)) = []) reg)"

text \<open>
  The tasks that were created and not cancelled, and those that were created and have not
  ended. The supervisor is in order when every cancelled task was created and the only task
  not cancelled is the one the handle holds; it tracks the registry when it holds a task
  exactly when some source is followed.
\<close>

definition uncancelled :: "state \<Rightarrow> nat list" where
  "uncancelled s = filter (\<lambda>t. t \<notin> set (cancelled s)) [0..<tasks_created s]"


definition supervised :: "state \<Rightarrow> bool" where
  "supervised s =
     (list_all (\<lambda>t. t < tasks_created s) (cancelled s) \<and>
      uncancelled s = (case stream_task s of None \<Rightarrow> [] | Some t \<Rightarrow> [t]))"

definition tracks_registry :: "state \<Rightarrow> bool" where
  "tracks_registry s = ((stream_task s = None) = (follows s = []))"

section \<open>Scenarios\<close>

text \<open>
  Modelled from the spec: the upstream provider is outside the repository. Its timeline
  call returns, newest first, all items strictly newer than \<open>since_id\<close> when that is given,
  and the \<open>count\<close> most recent items otherwise.
\<close>

definition upstream :: "tweet list \<Rightarrow> params \<Rightarrow> tweet list" where
  "upstream items ps =
     (case since_id ps of
        Some since \<Rightarrow> filter (\<lambda>t. tweet_id t > since) items
      | None \<Rightarrow> (case count ps of Some n \<Rightarrow> take (nat n) items | None \<Rightarrow> items))"

definition alice_tweet :: "int \<Rightarrow> tweet" where
  "alice_tweet i = \<lparr>tweet_id = i, tweet_user_id = 42, tweet_user_screen_name = ''alice''\<rparr>"

text \<open>The state of a cog that holds the registry \<open>reg\<close> and no stream task, as
  \<^verbatim>\<open>__init__\<close> has it before its call of \<^verbatim>\<open>stream_start\<close>.\<close>

definition loaded :: "registry \<Rightarrow> state" where
  "loaded reg = \<lparr>follows = reg, saved = reg, stream_task = None, tasks_created = 0,
                 cancelled = [], released = [], sent = [], reactions = []\<rparr>"

text \<open>After an outage: items 999 to 1002 of source 42 exist upstream, every channel accepts
  messages.\<close>

definition outage_env :: env where
  "outage_env = \<lparr>users_show = (\<lambda>n. None),
                  user_timeline = upstream (map alice_tweet [1002, 1001, 1000, 999]),
                  can_send = (\<lambda>c. True)\<rparr>"

definition two_cursors :: state where
  "two_cursors = loaded [(42, \<lparr>screen_name = ''alice'', channels = [(100, 1001), (200, 998)]\<rparr>)]"

text \<open>The account \<open>bob\<close> exists, is not protected and has never published.\<close>

definition silent_account_env :: env where
  "silent_account_env =
     \<lparr>users_show = (\<lambda>n. if n = ''bob''
                         then Some \<lparr>user_id = 7, protected = False, status = None\<rparr> else None),
      user_timeline = (\<lambda>ps. []),
      can_send = (\<lambda>c. True)\<rparr>"

definition one_follow :: state where
  "one_follow = loaded [(42, \<lparr>screen_name = ''alice'', channels = [(100, 1000)]\<rparr>)]"

text \<open>Three channels follow source 42; channel 200 refuses messages.\<close>

definition flaky_env :: env where
  "flaky_env = \<lparr>users_show = (\<lambda>n. None), user_timeline = (\<lambda>ps. []), can_send = (\<lambda>c. c \<noteq> 200)\<rparr>"

definition three_channels :: state where
  "three_channels =
     loaded [(42, \<lparr>screen_name = ''alice'', channels = [(100, 5), (200, 5), (300, 5)]\<rparr>)]"

text \<open>A registry that holds a source without channels before a followed one.\<close>

definition orphan_first :: state where
  "orphan_first = loaded [(7, \<lparr>screen_name = ''bob'', channels = []\<rparr>),
                          (42, \<lparr>screen_name = ''alice'', channels = [(100, 1001)]\<rparr>)]"



text \<open>The account 42, followed as \<open>alice\<close>, now has the handle \<open>alice2\<close> and the last item
  2000.\<close>

definition renamed_env :: env where
  "renamed_env =
     \<lparr>users_show = (\<lambda>n. if n = ''alice2''
                         then Some \<lparr>user_id = 42, protected = False, status = Some 2000\<rparr> else None),
      user_timeline = (\<lambda>ps. []),
      can_send = (\<lambda>c. True)\<rparr>"

section \<open>Properties of dispatch\<close>

lemma cursor_set_last_tweet_id:
  "cursor (set_last_tweet_id uid c tid reg) u d =
     (if u = uid \<and> d = c then map_option (\<lambda>_. tid) (cursor reg u d) else cursor reg u d)"
  by (auto simp: cursor_def set_last_tweet_id_def map_of_map_entry split: option.splits)

lemma cursor_advance:
  "cursor (advance uid tid ks reg) u d =
     (if u = uid \<and> d \<in> set ks then map_option (\<lambda>_. tid) (cursor reg u d) else cursor reg u d)"
proof (induction ks arbitrary: reg)
  case Nil
  show ?case by (simp add: advance_def)
next
  case (Cons k ks)
  have "advance uid tid (k # ks) reg = advance uid tid ks (set_last_tweet_id uid k tid reg)"
    by (simp add: advance_def)
  then show ?case
    by (cases "cursor reg u d") (auto simp: Cons.IH cursor_set_last_tweet_id)
qed

lemma cursor_key:
  "map_of reg uid = Some conf \<Longrightarrow> d \<in> set (map fst (channels conf)) \<Longrightarrow>
   \<exists>v. cursor reg uid d = Some v"
proof -
  assume src: "map_of reg uid = Some conf" and key: "d \<in> set (map fst (channels conf))"
  from key have "map_of (channels conf) d \<noteq> None"
    by (simp add: map_of_eq_None_iff)
  with src show ?thesis
    by (auto simp: cursor_def)
qed

lemma dispatch_loop_all_sent:
  "list_all (can_send e) ks \<Longrightarrow>
   dispatch_loop e uid url tid ks s =
     (None, s\<lparr>sent := sent s @ map (\<lambda>c. (c, url)) ks,
              follows := advance uid tid ks (follows s),
              saved := (if ks = [] then saved s else advance uid tid ks (follows s))\<rparr>)"
proof (induction ks arbitrary: s)
  case Nil
  show ?case by (simp add: advance_def)
next
  case (Cons k ks)
  then show ?case
    by (simp add: advance_def save_def)
qed

lemma dispatch_loop_append:
  "dispatch_loop e uid url tid (ks @ ks') s =
     (case dispatch_loop e uid url tid ks s of
        (None, s') \<Rightarrow> dispatch_loop e uid url tid ks' s'
      | (Some err, s') \<Rightarrow> (Some err, s'))"
  by (induction ks arbitrary: s) auto

lemma dispatch_loop_fails_at:
  assumes "list_all (can_send e) ks" and "\<not> can_send e c"
  shows "dispatch_loop e uid url tid (ks @ c # ks') s =
     (Some (DeliveryFailed c),
      s\<lparr>sent := sent s @ map (\<lambda>c. (c, url)) ks,
        follows := advance uid tid ks (follows s),
        saved := (if ks = [] then saved s else advance uid tid ks (follows s))\<rparr>)"
  using assms by (simp add: dispatch_loop_append dispatch_loop_all_sent)

text \<open>
  C1, on the code: in the scenario of the specification (channels 100 and 200 follow source
  42 with the cursors 1001 and 998, and the items 999 to 1002 exist upstream), the
  reconciliation returns and has sent the four items, oldest first, to channel 200 and to
  channel 100 alike. Channel 100 receives 999, 1000 and 1001 again, although its cursor was
  at 1001: \<^verbatim>\<open>dispatch_tweet\<close> never compares an item with the cursor of the channel.
\<close>

theorem reconcile_redelivers:
  "fst (update_feeds outage_env two_cursors) = None \<and>
   received (snd (update_feeds outage_env two_cursors)) 200 =
     map (build_tweet_url ''alice'') [999, 1000, 1001, 1002] \<and>
   received (snd (update_feeds outage_env two_cursors)) 100 =
     map (build_tweet_url ''alice'') [999, 1000, 1001, 1002]"
  by code_simp

text \<open>
  C2, on the code: the first dispatch of that reconciliation, of item 999, writes 999 over
  the cursor 1001 of channel 100. The cursor of a channel goes backwards.
\<close>

theorem dispatch_regresses_cursor:
  "cursor (follows two_cursors) 42 100 = Some 1001 \<and>
   cursor (follows (snd (dispatch_tweet outage_env (alice_tweet 999) two_cursors))) 42 100 = Some 999"
  by code_simp

text \<open>
  C3 as stated fails: channel 200 refuses item 6, and channel 300, which accepts messages
  and comes after 200 in the registry, does not receive the item.
\<close>

theorem failure_blocks_later_channel:
  "can_send flaky_env 300 \<and>
   fst (dispatch_tweet flaky_env (alice_tweet 6) three_channels) = Some (DeliveryFailed 200) \<and>
   received (snd (dispatch_tweet flaky_env (alice_tweet 6) three_channels)) 300 = []"
  by code_simp

text \<open>
  C3, amended: when the send to one channel of the source fails, the dispatch ends there
  with that failure. The channels before it in the registry's order have been sent the url
  of the item, in that order, and their cursors are the id of the item; nothing else has
  been sent, and the failed channel and every channel after it keep their cursors.
\<close>

theorem dispatch_failure_aborts:
  assumes src: "map_of (follows s) (tweet_user_id tw) = Some conf"
    and keys: "map fst (channels conf) = before @ c # after"
    and dist: "distinct (map fst (channels conf))"
    and ok: "list_all (can_send e) before"
    and bad: "\<not> can_send e c"
  shows "fst (dispatch_tweet e tw s) = Some (DeliveryFailed c) \<and>
         sent (snd (dispatch_tweet e tw s)) =
           sent s @ map (\<lambda>d. (d, build_tweet_url (tweet_user_screen_name tw) (tweet_id tw))) before \<and>
         list_all (\<lambda>d. cursor (follows (snd (dispatch_tweet e tw s))) (tweet_user_id tw) d =
                       Some (tweet_id tw)) before \<and>
         list_all (\<lambda>d. cursor (follows (snd (dispatch_tweet e tw s))) (tweet_user_id tw) d =
                       cursor (follows s) (tweet_user_id tw) d) (c # after)"
proof -
  let ?url = "build_tweet_url (tweet_user_screen_name tw) (tweet_id tw)"
  let ?s' = "s\<lparr>sent := sent s @ map (\<lambda>c. (c, ?url)) before,
        follows := advance (tweet_user_id tw) (tweet_id tw) before (follows s),
        saved := (if before = [] then saved s
                  else advance (tweet_user_id tw) (tweet_id tw) before (follows s))\<rparr>"
  have run: "dispatch_tweet e tw s = (Some (DeliveryFailed c), ?s')"
    using src keys dispatch_loop_fails_at[OF ok bad]
    by (simp add: dispatch_tweet_def)
  have adv: "\<And>d. d \<in> set before \<Longrightarrow> cursor (follows ?s') (tweet_user_id tw) d = Some (tweet_id tw)"
  proof -
    fix d assume d: "d \<in> set before"
    then have "d \<in> set (map fst (channels conf))" using keys by simp
    from cursor_key[OF src this] d show "cursor (follows ?s') (tweet_user_id tw) d = Some (tweet_id tw)"
      by (auto simp: cursor_advance)
  qed
  have keep: "\<And>d. d \<in> set (c # after) \<Longrightarrow>
      cursor (follows ?s') (tweet_user_id tw) d = cursor (follows s) (tweet_user_id tw) d"
  proof -
    fix d assume "d \<in> set (c # after)"
    then have "d \<notin> set before" using dist keys by auto
    then show "cursor (follows ?s') (tweet_user_id tw) d = cursor (follows s) (tweet_user_id tw) d"
      by (simp add: cursor_advance)
  qed
  show ?thesis
    unfolding run fst_conv snd_conv
    using adv keep by (simp add: list_all_iff)
qed

theorem dispatch_failure_aborts_witness:
  "map_of (follows three_channels) (tweet_user_id (alice_tweet 6)) =
     Some \<lparr>screen_name = ''alice'', channels = [(100, 5), (200, 5), (300, 5)]\<rparr> \<and>
   list_all (can_send flaky_env) [100] \<and> \<not> can_send flaky_env 200 \<and>
   fst (dispatch_tweet flaky_env (alice_tweet 6) three_channels) = Some (DeliveryFailed 200) \<and>
   sent (snd (dispatch_tweet flaky_env (alice_tweet 6) three_channels)) =
     sent three_channels @ [(100, build_tweet_url ''alice'' 6)] \<and>
   cursor (follows (snd (dispatch_tweet flaky_env (alice_tweet 6) three_channels))) 42 100 = Some 6 \<and>
   cursor (follows (snd (dispatch_tweet flaky_env (alice_tweet 6) three_channels))) 42 200 = Some 5 \<and>
   cursor (follows (snd (dispatch_tweet flaky_env (alice_tweet 6) three_channels))) 42 300 = Some 5"
proof -
  let ?conf = "\<lparr>screen_name = ''alice'', channels = [(100, 5), (200, 5), (300, 5)]\<rparr>"
  have h1: "map_of (follows three_channels) (tweet_user_id (alice_tweet 6)) = Some ?conf"
    by code_simp
  have h2: "map fst (channels ?conf) = [100] @ 200 # [300]"
    by simp
  have h3: "distinct (map fst (channels ?conf))"
    by simp
  have h4: "list_all (can_send flaky_env) [100]"
    by code_simp
  have h5: "\<not> can_send flaky_env 200"
    by code_simp
  have c5: "cursor (follows three_channels) 42 200 = Some 5"
    and c6: "cursor (follows three_channels) 42 300 = Some 5"
    by code_simp+
  from dispatch_failure_aborts[OF h1 h2 h3 h4 h5] h1 h4 h5 c5 c6 show ?thesis
    by (simp add: alice_tweet_def)
qed

section \<open>Properties of the timeline request\<close>

lemma py_min_Min: "xs \<noteq> [] \<Longrightarrow> py_min xs = Inr (Min (set xs))"
  by (cases xs) (simp_all add: py_min_def Min.set_eq_fold del: set_simps)


text \<open>
  C9 as stated fails: for a source without channels \<^verbatim>\<open>get_timeline\<close> raises \<^verbatim>\<open>ValueError\<close>, and
  the reconciliation ends with that error instead of skipping the source; the channel of the
  source after it receives nothing.
\<close>

theorem no_sentinel_for_empty_source:
  "get_timeline outage_env (Some 7) None 3 orphan_first = Inl ValueError \<and>
   fst (update_feeds outage_env orphan_first) = Some ValueError \<and>
   received (snd (update_feeds outage_env orphan_first)) 100 = []"
  by code_simp

text \<open>
  C9, amended: for a followed source with at least one channel the timeline request is
  bounded by the minimum of the cursors of its channels (as \<open>since_id\<close> when that minimum is
  positive, by the count otherwise). There is no sentinel: for a followed source without
  channels the computation of the minimum raises \<^verbatim>\<open>ValueError\<close>, and the reconciliation
  that reaches this source ends with that error, the state unchanged.
\<close>

theorem min_cursor_bounds_backfill:
  assumes src: "map_of (follows s) uid = Some conf" and nz: "uid \<noteq> 0"
  shows "(channels conf \<noteq> [] \<longrightarrow>
            get_timeline e (Some uid) None limit s =
              Inr (user_timeline e
                    (if Min (set (map snd (channels conf))) > 0
                     then base_params\<lparr>param_user_id := Some uid,
                                      since_id := Some (Min (set (map snd (channels conf))))\<rparr>
                     else base_params\<lparr>param_user_id := Some uid, count := Some limit\<rparr>))) \<and>
         (channels conf = [] \<longrightarrow>
            get_timeline e (Some uid) None limit s = Inl ValueError \<and>
            update_loop e (uid # uids) s = (Some ValueError, s))"
proof (cases "channels conf = []")
  case True
  with src nz have "get_timeline e (Some uid) None limit' s = Inl ValueError" for limit'
    by (simp add: get_timeline_def py_min_def)
  with True show ?thesis by simp
next
  case False
  then have "py_min (map snd (channels conf)) = Inr (Min (set (map snd (channels conf))))"
    by (simp add: py_min_Min)
  with src nz False show ?thesis
    by (simp add: get_timeline_def timeline_request_def)
qed

theorem min_cursor_bounds_backfill_witness:
  "map_of (follows two_cursors) 42 =
     Some \<lparr>screen_name = ''alice'', channels = [(100, 1001), (200, 998)]\<rparr> \<and>
   get_timeline outage_env (Some 42) None 3 two_cursors =
     Inr (user_timeline outage_env (base_params\<lparr>param_user_id := Some 42, since_id := Some 998\<rparr>)) \<and>
   map_of (follows orphan_first) 7 = Some \<lparr>screen_name = ''bob'', channels = []\<rparr> \<and>
   get_timeline outage_env (Some 7) None 3 orphan_first = Inl ValueError \<and>
   update_loop outage_env [7, 42] orphan_first = (Some ValueError, orphan_first)"
proof -
  have a: "map_of (follows two_cursors) 42 =
     Some \<lparr>screen_name = ''alice'', channels = [(100, 1001), (200, 998)]\<rparr>"
    by code_simp
  have b: "map_of (follows orphan_first) 7 = Some \<lparr>screen_name = ''bob'', channels = []\<rparr>"
    by code_simp
  have nz: "(42::int) \<noteq> 0" "(7::int) \<noteq> 0" by simp_all
  from min_cursor_bounds_backfill[OF a nz(1), of outage_env 3 "[]"]
       min_cursor_bounds_backfill[OF b nz(2), of outage_env 3 "[42]"] a b
  show ?thesis by simp
qed

section \<open>Properties of follow and unfollow\<close>

lemma stream_restart_fields [simp]:
  "follows (stream_restart s) = follows s"
  "saved (stream_restart s) = saved s"
  "sent (stream_restart s) = sent s"
  "reactions (stream_restart s) = reactions s"
  by (simp_all add: stream_restart_def stream_start_def stream_stop_def split: option.splits)








text \<open>
  A followed account whose handle has changed is not found under its new handle: the follow
  takes the first branch, writes a new element over the one of source 42 and seeds channel
  200 with the last item 2000; channel 100 is no longer in the registry.
\<close>

lemma follow_renamed_account:
  "fst (follow renamed_env 200 ''alice2'' one_follow) = None \<and>
   cursor (follows (snd (follow renamed_env 200 ''alice2'' one_follow))) 42 200 = Some 2000 \<and>
   cursor (follows (snd (follow renamed_env 200 ''alice2'' one_follow))) 42 100 = None"
  by code_simp

text \<open>
  C10, on the code: following \<open>bob\<close>, who exists, is not protected and has never published,
  ends with \<^verbatim>\<open>KeyError\<close> after the registry in memory has received an entry for source 7
  without channels; nothing is saved, sent or restarted.
\<close>

theorem follow_silent_account_keeps_entry:
  "follow silent_account_env 100 ''@Bob'' (loaded []) =
     (Some KeyError, (loaded [])\<lparr>follows := [(7, \<lparr>screen_name = ''bob'', channels = []\<rparr>)]\<rparr>)"
  by code_simp

text \<open>
  C4, on the code: a registry without empty sources has one after that follow.
\<close>

theorem follow_breaks_no_empty_source:
  "no_empty_source (follows one_follow) \<and>
   \<not> no_empty_source (follows (snd (follow silent_account_env 200 ''bob'' one_follow)))"
  by code_simp

section \<open>Properties of the removal of channels\<close>

lemma fold_delete: "fold AList.delete ks al = filter (\<lambda>p. fst p \<notin> set ks) al"
proof (induction ks arbitrary: al)
  case Nil
  show ?case by simp
next
  case (Cons k ks)
  have "AList.delete k al = filter (\<lambda>p. fst p \<noteq> k) al"
    by (simp add: AList.delete_eq case_prod_unfold eq_commute)
  then show ?case
    by (simp add: Cons.IH conj_commute)
qed

lemma pop_hits: "fold AList.delete (hits cs chans) chans = filter (\<lambda>p. Id (fst p) \<notin> set cs) chans"
  unfolding fold_delete by (rule filter_cong) (auto simp: hits_def)

lemma map_entry_append:
  "k \<notin> fst ` set xs \<Longrightarrow> AList.map_entry k f (xs @ (k, v) # ys) = xs @ (k, f v) # ys"
  by (induction xs) auto

lemma delete_append:
  "k \<notin> fst ` set xs \<Longrightarrow> k \<notin> fst ` set ys \<Longrightarrow> AList.delete k (xs @ (k, v) # ys) = xs @ ys"
proof -
  assume a: "k \<notin> fst ` set xs" and b: "k \<notin> fst ` set ys"
  have "filter (\<lambda>p. k \<noteq> fst p) zs = zs" if "k \<notin> fst ` set zs" for zs :: "('a \<times> 'b) list"
    using that by (induction zs) auto
  from this[OF a] this[OF b] show ?thesis
    by (simp add: AList.delete_eq case_prod_unfold)
qed

lemma remove_loop_Cons:
  "remove_loop cs ((uid, conf) # rest) (r, u, reg) =
     (if channels (conf_without cs conf) = []
      then remove_loop cs rest (r + length (hits cs (channels conf)), Suc u,
             AList.delete uid (AList.map_entry uid (\<lambda>cf. cf\<lparr>channels := channels (conf_without cs conf)\<rparr>) reg))
      else remove_loop cs rest (r + length (hits cs (channels conf)), u,
             AList.map_entry uid (\<lambda>cf. cf\<lparr>channels := channels (conf_without cs conf)\<rparr>) reg))"
  by (simp add: pop_hits Let_def conf_without_def)

lemma conf_without_channels: "conf\<lparr>channels := channels (conf_without cs conf)\<rparr> = conf_without cs conf"
  by (simp add: conf_without_def)

lemma registry_without_Cons:
  "registry_without cs ((uid, conf) # reg) =
     (if channels (conf_without cs conf) = [] then registry_without cs reg else (uid, conf_without cs conf) # registry_without cs reg)"
  by (simp add: registry_without_def)

lemma entries_removed_Cons:
  "entries_removed cs ((uid, conf) # reg) = length (hits cs (channels conf)) + entries_removed cs reg"
  by (simp add: entries_removed_def)

lemma sources_emptied_Cons:
  "sources_emptied cs ((uid, conf) # reg) =
     (if channels (conf_without cs conf) = [] then Suc (sources_emptied cs reg) else sources_emptied cs reg)"
  by (simp add: sources_emptied_def)

lemma remove_loop_registry_without:
  "distinct (map fst (done @ snap)) \<Longrightarrow>
   remove_loop cs snap (r, u, done @ snap) =
     (r + entries_removed cs snap, u + sources_emptied cs snap, done @ registry_without cs snap)"
proof (induction snap arbitrary: r u "done")
  case Nil
  show ?case by (simp add: entries_removed_def sources_emptied_def registry_without_def)
next
  case (Cons p snap)
  obtain uid conf where p: "p = (uid, conf)" by (cases p)
  from Cons.prems p have fresh: "uid \<notin> fst ` set done" "uid \<notin> fst ` set snap"
    by auto
  have entry: "AList.map_entry uid (\<lambda>cf. cf\<lparr>channels := channels (conf_without cs conf)\<rparr>) (done @ (uid, conf) # snap) =
      done @ (uid, conf_without cs conf) # snap"
    using map_entry_append[OF fresh(1), of "\<lambda>cf. cf\<lparr>channels := channels (conf_without cs conf)\<rparr>" conf snap]
    by (simp only: conf_without_channels)
  show ?case
  proof (cases "channels (conf_without cs conf) = []")
    case True
    have d: "distinct (map fst (done @ snap))" using Cons.prems by simp
    have "remove_loop cs (p # snap) (r, u, done @ p # snap) =
        remove_loop cs snap (r + length (hits cs (channels conf)), Suc u, done @ snap)"
      unfolding p remove_loop_Cons entry using True fresh by (simp add: delete_append del: remove_loop.simps)
    also have "\<dots> = (r + length (hits cs (channels conf)) + entries_removed cs snap,
        Suc u + sources_emptied cs snap, done @ registry_without cs snap)"
      by (rule Cons.IH[OF d])
    finally show ?thesis
      using True by (simp add: p registry_without_Cons entries_removed_Cons sources_emptied_Cons del: remove_loop.simps)
  next
    case False
    have d: "distinct (map fst ((done @ [(uid, conf_without cs conf)]) @ snap))"
      using Cons.prems p by simp
    have "remove_loop cs (p # snap) (r, u, done @ p # snap) =
        remove_loop cs snap (r + length (hits cs (channels conf)), u, (done @ [(uid, conf_without cs conf)]) @ snap)"
      unfolding p remove_loop_Cons entry using False by (simp del: remove_loop.simps)
    also have "\<dots> = (r + length (hits cs (channels conf)) + entries_removed cs snap,
        u + sources_emptied cs snap, (done @ [(uid, conf_without cs conf)]) @ registry_without cs snap)"
      by (rule Cons.IH[OF d])
    finally show ?thesis
      using False by (simp add: p registry_without_Cons entries_removed_Cons sources_emptied_Cons del: remove_loop.simps)
  qed
qed

lemma conf_without_idem: "conf_without cs (conf_without cs conf) = conf_without cs conf"
  by (simp add: conf_without_def)

lemma hits_conf_without: "hits cs (channels (conf_without cs conf)) = []"
  by (simp add: conf_without_def hits_def filter_empty_conv)

lemma distinct_registry_without: "distinct (map fst reg) \<Longrightarrow> distinct (map fst (registry_without cs reg))"
proof (induction reg)
  case Nil
  show ?case by (simp add: registry_without_def)
next
  case (Cons p reg)
  obtain uid conf where p: "p = (uid, conf)" by (cases p)
  have sub: "fst ` set (registry_without cs reg) \<subseteq> fst ` set reg"
    by (force simp: registry_without_def)
  with Cons show ?case
    by (auto simp: p registry_without_Cons)
qed

lemma registry_without_idem: "registry_without cs (registry_without cs reg) = registry_without cs reg"
proof (induction reg)
  case Nil
  show ?case by (simp add: registry_without_def)
next
  case (Cons p reg)
  obtain uid conf where p: "p = (uid, conf)" by (cases p)
  from Cons show ?case
    by (simp add: p registry_without_Cons conf_without_idem)
qed

lemma entries_removed_registry_without: "entries_removed cs (registry_without cs reg) = 0"
proof (induction reg)
  case Nil
  show ?case by (simp add: registry_without_def entries_removed_def)
next
  case (Cons p reg)
  obtain uid conf where p: "p = (uid, conf)" by (cases p)
  from Cons show ?case
    by (simp add: p registry_without_Cons entries_removed_Cons hits_conf_without)
qed

lemma sources_emptied_registry_without: "sources_emptied cs (registry_without cs reg) = 0"
proof (induction reg)
  case Nil
  show ?case by (simp add: registry_without_def sources_emptied_def)
next
  case (Cons p reg)
  obtain uid conf where p: "p = (uid, conf)" by (cases p)
  from Cons show ?case
    by (simp add: p registry_without_Cons sources_emptied_Cons conf_without_idem)
qed

lemma remove_loop_spec:
  "distinct (map fst reg) \<Longrightarrow>
   remove_loop cs reg (0, 0, reg) = (entries_removed cs reg, sources_emptied cs reg, registry_without cs reg)"
  using remove_loop_registry_without[of "[]" reg cs 0 0] by simp

lemma remove_channels_spec:
  assumes "distinct (map fst (follows s))"
  shows "fst (remove_channels_from_conf cs s) =
           (entries_removed cs (follows s), sources_emptied cs (follows s))"
    and "follows (snd (remove_channels_from_conf cs s)) = registry_without cs (follows s)"
    and "saved (snd (remove_channels_from_conf cs s)) = registry_without cs (follows s)"
  using remove_loop_spec[OF assms, of cs]
  by (simp_all add: remove_channels_from_conf_def Let_def save_def del: remove_loop.simps)

lemma save_fixed: "saved t = follows t \<Longrightarrow> save (t\<lparr>follows := follows t\<rparr>) = t"
  by (simp add: save_def)

text \<open>
  C5: on a registry whose sources have distinct ids, a second call of
  \<^verbatim>\<open>remove_channels_from_conf\<close> with the same arguments, on the state the first call leaves,
  returns the counts \<open>(0, 0)\<close> and leaves that state as it is. The function has no error
  result: an argument that is no channel of any source is skipped.
\<close>

theorem remove_channels_idempotent:
  assumes "distinct (map fst (follows s))"
  shows "remove_channels_from_conf cs (snd (remove_channels_from_conf cs s)) =
           ((0, 0), snd (remove_channels_from_conf cs s))"
proof -
  define s' where "s' = snd (remove_channels_from_conf cs s)"
  have f: "follows s' = registry_without cs (follows s)"
    unfolding s'_def using assms by (rule remove_channels_spec)
  have sv: "saved s' = registry_without cs (follows s)"
    unfolding s'_def using assms by (rule remove_channels_spec)
  have "distinct (map fst (follows s'))"
    unfolding f using assms by (rule distinct_registry_without)
  then have "remove_loop cs (follows s') (0, 0, follows s') =
      (entries_removed cs (follows s'), sources_emptied cs (follows s'), registry_without cs (follows s'))"
    by (rule remove_loop_spec)
  then have loop: "remove_loop cs (follows s') (0, 0, follows s') = (0, 0, follows s')"
    unfolding f by (simp only: entries_removed_registry_without sources_emptied_registry_without registry_without_idem)
  have "saved s' = follows s'" by (simp only: f sv)
  then have "save (s'\<lparr>follows := follows s'\<rparr>) = s'" by (rule save_fixed)
  with loop have "remove_channels_from_conf cs s' = ((0, 0), s')"
    by (simp add: remove_channels_from_conf_def del: remove_loop.simps)
  then show ?thesis unfolding s'_def .
qed

theorem remove_channels_idempotent_witness:
  "distinct (map fst (follows two_cursors)) \<and>
   fst (remove_channels_from_conf [Id 100, Id 200] two_cursors) = (2, 1) \<and>
   remove_channels_from_conf [Id 100, Id 200]
       (snd (remove_channels_from_conf [Id 100, Id 200] two_cursors)) =
     ((0, 0), snd (remove_channels_from_conf [Id 100, Id 200] two_cursors))"
proof -
  have d: "distinct (map fst (follows two_cursors))"
    by code_simp
  have c: "fst (remove_channels_from_conf [Id 100, Id 200] two_cursors) = (2, 1)"
    by code_simp
  from remove_channels_idempotent[OF d, of "[Id 100, Id 200]"] d c show ?thesis
    by blast
qed

text \<open>
  C6, on the code: channel 100 follows source 42 and is deleted. The listener passes the
  channel object, which is equal to no channel id, so nothing is removed: the counts are
  \<open>(0, 0)\<close> and the state is as before, the entry of channel 100 included.
\<close>

theorem channel_delete_removes_nothing:
  "cursor (follows one_follow) 42 100 = Some 1000 \<and>
   on_guild_channel_delete 100 one_follow = ((0, 0), one_follow)"
  by code_simp

section \<open>The registry invariant on the other paths\<close>

text \<open>
  Apart from the follow that ends with \<^verbatim>\<open>KeyError\<close>, the operations keep the registry free
  of sources without channels: the bulk removal establishes it, unfollow keeps it, and so
  does every follow with another outcome.
\<close>

lemma no_empty_registry_without: "no_empty_source (registry_without cs reg)"
  by (simp add: no_empty_source_def registry_without_def list_all_iff)

lemma remove_keeps_no_empty_source:
  "distinct (map fst (follows s)) \<Longrightarrow>
   no_empty_source (follows (snd (remove_channels_from_conf cs s)))"
  by (simp add: remove_channels_spec no_empty_registry_without)

lemma no_empty_map_entry:
  "no_empty_source reg \<Longrightarrow> chans \<noteq> [] \<Longrightarrow>
   no_empty_source (AList.map_entry k (\<lambda>cf. cf\<lparr>channels := chans\<rparr>) reg)"
  unfolding no_empty_source_def by (induction reg) auto

lemma delete_map_entry: "AList.delete k (AList.map_entry k f reg) = AList.delete k reg"
  by (induction reg) auto

lemma no_empty_delete: "no_empty_source reg \<Longrightarrow> no_empty_source (AList.delete k reg)"
  by (simp add: no_empty_source_def AList.delete_eq list_all_iff)

lemma unfollow_keeps_no_empty_source:
  assumes "no_empty_source (follows s)"
  shows "no_empty_source (follows (snd (unfollow ch h s)))"
  using assms
  by (auto simp: unfollow_def Let_def save_def delete_map_entry no_empty_delete no_empty_map_entry
      split: option.splits)

lemma map_entry_update: "AList.map_entry k f (AList.update k v reg) = AList.update k (f v) reg"
  by (induction reg) auto

lemma no_empty_update:
  "no_empty_source reg \<Longrightarrow> channels conf \<noteq> [] \<Longrightarrow> no_empty_source (AList.update k conf reg)"
  unfolding no_empty_source_def by (induction reg) auto

lemma config_get_member: "config_get reg name = Some (uid, conf) \<Longrightarrow> (uid, conf) \<in> set reg"
  unfolding config_get_def by (induction reg) (auto split: if_splits)

lemma follow_finish_follows:
  "follows (snd (follow_finish e ch uid last_id url s)) =
     AList.map_entry uid (\<lambda>conf. conf\<lparr>channels := AList.update ch last_id (channels conf)\<rparr>) (follows s)"
  by (simp add: follow_finish_def Let_def save_def)

lemma no_empty_map_entry_update:
  "no_empty_source reg \<Longrightarrow>
   no_empty_source (AList.map_entry k (\<lambda>conf. conf\<lparr>channels := AList.update ch v (channels conf)\<rparr>) reg)"
  unfolding no_empty_source_def by (induction reg) auto

lemma follow_keeps_no_empty_source:
  assumes inv: "no_empty_source (follows s)" and res: "fst (follow e ch h s) \<noteq> Some KeyError"
  shows "no_empty_source (follows (snd (follow e ch h s)))"
proof (cases "config_get (follows s) (normalise_handle h)")
  case None
  with inv res show ?thesis
    by (auto simp: follow_def Let_def follow_finish_follows map_entry_update no_empty_update
        split: option.splits)
next
  case (Some p)
  obtain uid conf where p: "p = (uid, conf)" by (cases p)
  from inv Some p show ?thesis
    by (auto simp: follow_def Let_def follow_finish_follows no_empty_map_entry_update
        split: sum.splits)
qed

section \<open>The handle of the stream task\<close>


section \<open>The supervision of the stream task\<close>

lemma uncancelled_fields [simp]:
  "uncancelled (s\<lparr>follows := f\<rparr>) = uncancelled s"
  "uncancelled (s\<lparr>saved := g\<rparr>) = uncancelled s"
  "uncancelled (s\<lparr>sent := m\<rparr>) = uncancelled s"
  "uncancelled (s\<lparr>reactions := r\<rparr>) = uncancelled s"
  by (simp_all add: uncancelled_def)

lemma supervised_fields [simp]:
  "supervised (s\<lparr>follows := f\<rparr>) = supervised s"
  "supervised (s\<lparr>saved := g\<rparr>) = supervised s"
  "supervised (s\<lparr>sent := m\<rparr>) = supervised s"
  "supervised (s\<lparr>reactions := r\<rparr>) = supervised s"
  by (simp_all add: supervised_def)

lemma supervised_save [simp]: "supervised (save s) = supervised s"
  by (simp add: save_def)






lemma released_stream [simp]:
  "released (stream_stop s) = released s"
  "released (stream_start s) = released s"
  "released (stream_restart s) = released s"
  by (simp_all add: stream_restart_def stream_start_def stream_stop_def split: option.splits)


lemma tracks_fields [simp]:
  "tracks_registry (s\<lparr>saved := g\<rparr>) = tracks_registry s"
  "tracks_registry (s\<lparr>sent := m\<rparr>) = tracks_registry s"
  "tracks_registry (s\<lparr>reactions := r\<rparr>) = tracks_registry s"
  by (simp_all add: tracks_registry_def)

lemma tracks_save [simp]: "tracks_registry (save s) = tracks_registry s"
  by (simp add: save_def)














end
